theory Spec2Isabelle
  imports Main "HOL-Library.Word" "HOL-Library.AList"
begin

section \<open>Data model (main.go)\<close>

text \<open>
  Go's \<open>uint\<close> and \<open>int\<close> are taken at 64 bits. Both are \<open>64 word\<close>: \<open>+\<close>, \<open>-\<close> and
  unary minus wrap as Go's do, the order \<open><\<close> on words is the unsigned one, \<open>sint\<close> reads
  a word as a signed \<open>int\<close>, and the conversion \<open>uint(x)\<close> of an \<open>int\<close> keeps the bits.
\<close>

type_synonym go_uint = "64 word"
type_synonym go_int = "64 word"

record AccountUpdate =
  Name :: string
  BalanceChange :: go_int

record AccountValue =
  Name :: string
  Balance :: go_uint

text \<open>
  The error values of the repository: the one \<open>transfer.Updates\<close> builds with
  \<open>fmt.Errorf\<close>, kept as the arguments of its format string.
\<close>

datatype error = InsufficientBalance string go_uint go_int

subsection \<open>InMemoryAccountState\<close>

text \<open>
  The field \<open>accounts\<close> is a Go map. It is an association list with one entry for each
  key; Go iterates a map in no specified order, so the order of the list carries no
  meaning and every statement about a snapshot reads it through \<open>set\<close> or \<open>map_of\<close>.
  The lock \<open>mu\<close> has no counterpart: each method below is one atomic function.
\<close>

record InMemoryAccountState =
  accounts :: "(string \<times> go_uint) list"

text \<open>\<open>s.accounts[name]\<close>: the zero value for a missing key.\<close>

definition balance_of :: "(string \<times> go_uint) list \<Rightarrow> string \<Rightarrow> go_uint" where
  "balance_of al name = (case map_of al name of None \<Rightarrow> 0 | Some b \<Rightarrow> b)"

definition NewInMemoryAccountState :: "AccountValue list \<Rightarrow> InMemoryAccountState" where
  "NewInMemoryAccountState initialAccounts =
     foldl (\<lambda>state acc.
              state\<lparr>accounts := AList.update (AccountValue.Name acc) (Balance acc) (accounts state)\<rparr>)
           \<lparr>accounts = []\<rparr> initialAccounts"

definition GetAccount :: "InMemoryAccountState \<Rightarrow> string \<Rightarrow> AccountValue" where
  "GetAccount s name =
     (let balance = balance_of (accounts s) name
      in \<lparr>Name = name, Balance = balance\<rparr>)"

text \<open>The body of the loop of \<open>applyUpdates\<close>, for one update.\<close>

definition applyUpdate :: "InMemoryAccountState \<Rightarrow> AccountUpdate \<Rightarrow> InMemoryAccountState" where
  "applyUpdate s update =
     (let currentBalance = balance_of (accounts s) (AccountUpdate.Name update)
      in if 0 \<le> sint (BalanceChange update)
         then s\<lparr>accounts := AList.update (AccountUpdate.Name update)
                              (currentBalance + BalanceChange update) (accounts s)\<rparr>
         else (let decrease = - BalanceChange update
               in if decrease > currentBalance
                  then s\<lparr>accounts := AList.update (AccountUpdate.Name update) 0 (accounts s)\<rparr>
                  else s\<lparr>accounts := AList.update (AccountUpdate.Name update)
                                       (currentBalance - decrease) (accounts s)\<rparr>))"

definition applyUpdates :: "InMemoryAccountState \<Rightarrow> AccountUpdate list \<Rightarrow> InMemoryAccountState" where
  "applyUpdates s updates = foldl applyUpdate s updates"

definition getSnapshot :: "InMemoryAccountState \<Rightarrow> AccountValue list" where
  "getSnapshot s = map (\<lambda>(name, balance). \<lparr>Name = name, Balance = balance\<rparr>) (accounts s)"

definition ApplyUpdates :: "InMemoryAccountState \<Rightarrow> AccountUpdate list \<Rightarrow> InMemoryAccountState" where
  "ApplyUpdates s updates = applyUpdates s updates"

definition GetSnapshot :: "InMemoryAccountState \<Rightarrow> AccountValue list" where
  "GetSnapshot s = getSnapshot s"

section \<open>Transactions and blocks\<close>

text \<open>
  A \<open>Transaction\<close> is the interface with the one method \<open>Updates(AccountState)\<close>. It is a
  function of what it can read through \<open>GetAccount\<close>, returning Go's pair of the updates and
  the error (\<open>None\<close> is \<open>nil\<close>). A transaction that writes to the state it is handed, or
  that answers differently on the same balances, is outside this model.
\<close>

type_synonym AccountState = "string \<Rightarrow> AccountValue"

type_synonym Transaction = "AccountState \<Rightarrow> AccountUpdate list \<times> error option"

record Block =
  Transactions :: "Transaction list"

text \<open>The field \<open>state\<close> of a job is the pointer to the one shared ledger of the run.\<close>

record txJob =
  transaction :: Transaction
  index :: nat

record txResult =
  updates :: "AccountUpdate list"
  index :: nat
  err :: "error option"

subsection \<open>The test transaction \<open>transfer\<close>\<close>

record transfer =
  tfrom :: string
  tto :: string
  tvalue :: go_int

definition Updates :: "transfer \<Rightarrow> Transaction" where
  "Updates t state =
     (let fromAcc = state (tfrom t)
      in if Balance fromAcc < tvalue t
         then ([], Some (InsufficientBalance (tfrom t) (Balance fromAcc) (tvalue t)))
         else ([\<lparr>AccountUpdate.Name = tfrom t, BalanceChange = - tvalue t\<rparr>,
                \<lparr>AccountUpdate.Name = tto t, BalanceChange = tvalue t\<rparr>], None))"

section \<open>ExecuteBlock as a system of goroutines\<close>

text \<open>
  \<open>ExecuteBlock\<close> starts \<open>numWorkers\<close> goroutines running \<open>worker\<close>, one goroutine that waits
  for them and closes \<open>results\<close>, and then runs its own loop. A configuration holds the two
  channels (each has capacity 1: a buffer of at most one value and a closed flag), where
  each worker stands, where the main goroutine stands, and the shared ledger. One step is
  one channel operation, one call of \<open>Updates\<close> or one close, by one goroutine; the
  scheduler chooses which goroutine steps.
\<close>

text \<open>
  A worker stands before the receive of \<open>for job := range jobs\<close>, before the call of
  \<open>Updates\<close> with the job it received, before the send of its result, or has returned.
\<close>

datatype wstate = WRecv | WCompute txJob | WSend txResult | WExit

text \<open>
  The main goroutine stands before the send of job \<open>i\<close> (or, when \<open>i\<close> is past the last
  transaction, before \<open>close(jobs)\<close>), before the receive of the result of job \<open>i\<close>, in
  the loop that drains \<open>results\<close>, or at the return.
\<close>

datatype mainpc = MSend nat | MRecv nat | MDrain | MDone

text \<open>
  History of the run, kept beside the program state: each call of \<open>Updates\<close> with the index
  of its job and the ledger it read, and each call of \<open>ApplyUpdates\<close> by the main goroutine
  with the index of the result and the updates.
\<close>

datatype event = EvCompute nat InMemoryAccountState | EvCommit nat "AccountUpdate list"

record config =
  ledger :: InMemoryAccountState
  jobs :: "txJob option"
  jobs_closed :: bool
  results :: "txResult option"
  results_closed :: bool
  workers :: "wstate list"
  pc :: mainpc
  panicked :: bool
  trace :: "event list"

datatype actor = Main | Worker nat | Closer

fun is_exit :: "wstate \<Rightarrow> bool" where
  "is_exit WExit = True"
| "is_exit _ = False"

text \<open>
  \<open>worker\<close>: receive a job (or return once \<open>jobs\<close> is closed and empty), call \<open>Updates\<close> on
  the shared state, send the result. A send on a closed channel panics.
\<close>

definition worker_step :: "nat \<Rightarrow> config \<Rightarrow> config option" where
  "worker_step k c =
     (if length (workers c) \<le> k then None
      else case workers c ! k of
        WRecv \<Rightarrow>
          (case jobs c of
             Some job \<Rightarrow> Some (c\<lparr>jobs := None, workers := (workers c)[k := WCompute job]\<rparr>)
           | None \<Rightarrow>
               if jobs_closed c then Some (c\<lparr>workers := (workers c)[k := WExit]\<rparr>) else None)
      | WCompute job \<Rightarrow>
          (case transaction job (GetAccount (ledger c)) of
             (us, e) \<Rightarrow>
               Some (c\<lparr>workers := (workers c)
                           [k := WSend \<lparr>updates = us, index = txJob.index job, err = e\<rparr>],
                        trace := trace c @ [EvCompute (txJob.index job) (ledger c)]\<rparr>))
      | WSend result \<Rightarrow>
          if results_closed c then Some (c\<lparr>panicked := True\<rparr>)
          else (case results c of
                  None \<Rightarrow> Some (c\<lparr>results := Some result, workers := (workers c)[k := WRecv]\<rparr>)
                | Some _ \<Rightarrow> None)
      | WExit \<Rightarrow> None)"

text \<open>The goroutine \<open>wg.Wait(); close(results)\<close>.\<close>

definition closer_step :: "config \<Rightarrow> config option" where
  "closer_step c =
     (if results_closed c then None
      else if list_all is_exit (workers c) then Some (c\<lparr>results_closed := True\<rparr>)
      else None)"

text \<open>Lines 76 to 79: apply the updates of a result whose error is \<open>nil\<close>.\<close>

definition commit :: "txResult \<Rightarrow> config \<Rightarrow> config" where
  "commit result c =
     (if err result = None
      then c\<lparr>ledger := ApplyUpdates (ledger c) (updates result),
             trace := trace c @ [EvCommit (txResult.index result) (updates result)]\<rparr>
      else c)"

text \<open>
  The main goroutine. A receive from a closed and empty channel yields the zero value of
  \<open>txResult\<close>; a send on a closed channel and a second close panic.
\<close>

definition main_step :: "Transaction list \<Rightarrow> config \<Rightarrow> config option" where
  "main_step txs c =
     (case pc c of
        MSend i \<Rightarrow>
          if jobs_closed c then Some (c\<lparr>panicked := True\<rparr>)
          else if i < length txs
          then (case jobs c of
                  None \<Rightarrow> Some (c\<lparr>jobs := Some \<lparr>transaction = txs ! i, txJob.index = i\<rparr>,
                                   pc := MRecv i\<rparr>)
                | Some _ \<Rightarrow> None)
          else Some (c\<lparr>jobs_closed := True, pc := MDrain\<rparr>)
      | MRecv i \<Rightarrow>
          (case results c of
             Some result \<Rightarrow> Some (commit result (c\<lparr>results := None, pc := MSend (Suc i)\<rparr>))
           | None \<Rightarrow>
               if results_closed c
               then Some (commit \<lparr>updates = [], index = 0, err = None\<rparr> (c\<lparr>pc := MSend (Suc i)\<rparr>))
               else None)
      | MDrain \<Rightarrow>
          (case results c of
             Some _ \<Rightarrow> Some (c\<lparr>results := None\<rparr>)
           | None \<Rightarrow> if results_closed c then Some (c\<lparr>pc := MDone\<rparr>) else None)
      | MDone \<Rightarrow> None)"

text \<open>One step of the goroutine the scheduler chose; \<open>None\<close> when it cannot move.\<close>

definition step :: "Transaction list \<Rightarrow> actor \<Rightarrow> config \<Rightarrow> config option" where
  "step txs a c =
     (if panicked c then None
      else case a of
        Main \<Rightarrow> main_step txs c
      | Worker k \<Rightarrow> worker_step k c
      | Closer \<Rightarrow> closer_step c)"

fun run :: "Transaction list \<Rightarrow> actor list \<Rightarrow> config \<Rightarrow> config option" where
  "run txs [] c = Some c"
| "run txs (a # sched) c = (case step txs a c of None \<Rightarrow> None | Some c' \<Rightarrow> run txs sched c')"

definition init_config :: "InMemoryAccountState \<Rightarrow> int \<Rightarrow> config" where
  "init_config state numWorkers =
     \<lparr>ledger = state, jobs = None, jobs_closed = False, results = None,
      results_closed = False, workers = replicate (nat numWorkers) WRecv,
      pc = MSend 0, panicked = False, trace = []\<rparr>"

text \<open>
  \<open>ExecuteBlock\<close> under a schedule: \<open>None\<close> when the schedule asks a blocked goroutine to
  move or ends before the main goroutine returns; otherwise the two values returned (the
  snapshot and the error, always \<open>nil\<close>) and the ledger as the call leaves it.
\<close>

definition ExecuteBlock ::
  "actor list \<Rightarrow> Block \<Rightarrow> InMemoryAccountState \<Rightarrow> int \<Rightarrow>
     ((AccountValue list \<times> error option) \<times> InMemoryAccountState) option" where
  "ExecuteBlock sched block state numWorkers =
     (case run (Transactions block) sched (init_config state numWorkers) of
        None \<Rightarrow> None
      | Some c \<Rightarrow>
          (case pc c of
             MDone \<Rightarrow> Some ((GetSnapshot (ledger c), None), ledger c)
           | _ \<Rightarrow> None))"

text \<open>The loop of \<open>Start\<close> over the blocks, one schedule for each call of \<open>ExecuteBlock\<close>.\<close>

fun Start_blocks ::
  "actor list list \<Rightarrow> Block list \<Rightarrow> InMemoryAccountState \<Rightarrow> int \<Rightarrow>
     (error + InMemoryAccountState) option" where
  "Start_blocks scheds [] state numWorkers = Some (Inr state)"
| "Start_blocks [] (block # blocks) state numWorkers = None"
| "Start_blocks (sched # scheds) (block # blocks) state numWorkers =
     (case ExecuteBlock sched block state numWorkers of
        None \<Rightarrow> None
      | Some ((_, Some e), _) \<Rightarrow> Some (Inl e)
      | Some ((_, None), state') \<Rightarrow> Start_blocks scheds blocks state' numWorkers)"

definition Start ::
  "actor list list \<Rightarrow> Block list \<Rightarrow> AccountValue list \<Rightarrow> int \<Rightarrow>
     (error + AccountValue list) option" where
  "Start scheds blocks initialState numWorkers =
     (case Start_blocks scheds blocks (NewInMemoryAccountState initialState) numWorkers of
        None \<Rightarrow> None
      | Some (Inl e) \<Rightarrow> Some (Inl e)
      | Some (Inr state) \<Rightarrow> Some (Inr (getSnapshot state)))"

section \<open>The strict pipeline of the specification\<close>

text \<open>
  Section 4.3 of the specification, strategy 1: dispatch the computation of transaction
  \<open>i\<close>, wait for its result, commit it to the ledger, then dispatch transaction \<open>i + 1\<close>;
  the deltas of a failing transaction are discarded and the block continues. The function
  returns the ledger after the block and the history of the run: transaction \<open>i\<close> is
  computed against the ledger holding the committed effects of the transactions before
  it, and the writes are in ascending index order.
\<close>

fun strict_pipeline ::
  "Transaction list \<Rightarrow> nat \<Rightarrow> InMemoryAccountState \<Rightarrow> InMemoryAccountState \<times> event list" where
  "strict_pipeline [] i s = (s, [])"
| "strict_pipeline (tx # txs) i s =
     (case tx (GetAccount s) of
        (deltas, None) \<Rightarrow>
          (case strict_pipeline txs (Suc i) (applyUpdates s deltas) of
             (s', evs) \<Rightarrow> (s', EvCompute i s # EvCommit i deltas # evs))
      | (deltas, Some failure) \<Rightarrow>
          (case strict_pipeline txs (Suc i) s of
             (s', evs) \<Rightarrow> (s', EvCompute i s # evs)))"

text \<open>The chain driver of section 4.4: the blocks one after the other on one ledger.\<close>

definition chain_driver :: "Block list \<Rightarrow> InMemoryAccountState \<Rightarrow> InMemoryAccountState" where
  "chain_driver blocks s = foldl (\<lambda>s block. fst (strict_pipeline (Transactions block) 0 s)) s blocks"

section \<open>Invariant and measure of the goroutine system\<close>

definition all_recv :: "wstate list \<Rightarrow> bool" where
  "all_recv ws \<longleftrightarrow> (\<forall>j < length ws. ws ! j = WRecv)"

definition one_busy :: "wstate \<Rightarrow> wstate list \<Rightarrow> bool" where
  "one_busy w ws \<longleftrightarrow>
     (\<exists>k < length ws. ws ! k = w \<and> (\<forall>j < length ws. j \<noteq> k \<longrightarrow> ws ! j = WRecv))"

definition job_of :: "Transaction list \<Rightarrow> nat \<Rightarrow> txJob" where
  "job_of txs i = \<lparr>transaction = txs ! i, txJob.index = i\<rparr>"

definition result_of :: "Transaction list \<Rightarrow> nat \<Rightarrow> InMemoryAccountState \<Rightarrow> txResult" where
  "result_of txs i s =
     (case (txs ! i) (GetAccount s) of (us, e) \<Rightarrow> \<lparr>updates = us, index = i, err = e\<rparr>)"

text \<open>
  While the main goroutine waits for the result of job \<open>i\<close>, exactly one of four things
  holds: the job is in the channel, one worker holds the job, one worker holds the
  result, or the result is in the channel; every other worker waits for a job.
\<close>

definition in_flight :: "Transaction list \<Rightarrow> InMemoryAccountState \<Rightarrow> nat \<Rightarrow> config \<Rightarrow> bool" where
  "in_flight txs s0 i c \<longleftrightarrow>
     (let before = strict_pipeline (take i txs) 0 s0;
          computed = snd before @ [EvCompute i (fst before)]
      in ledger c = fst before \<and>
         (jobs c = Some (job_of txs i) \<and> results c = None \<and> all_recv (workers c) \<and>
            trace c = snd before
          \<or> jobs c = None \<and> results c = None \<and> one_busy (WCompute (job_of txs i)) (workers c) \<and>
            trace c = snd before
          \<or> jobs c = None \<and> results c = None \<and>
            one_busy (WSend (result_of txs i (fst before))) (workers c) \<and> trace c = computed
          \<or> jobs c = None \<and> results c = Some (result_of txs i (fst before)) \<and>
            all_recv (workers c) \<and> trace c = computed))"

definition exec_inv :: "Transaction list \<Rightarrow> InMemoryAccountState \<Rightarrow> config \<Rightarrow> bool" where
  "exec_inv txs s0 c \<longleftrightarrow>
     \<not> panicked c \<and> workers c \<noteq> [] \<and>
     (case pc c of
        MSend i \<Rightarrow>
          i \<le> length txs \<and> ledger c = fst (strict_pipeline (take i txs) 0 s0) \<and>
          trace c = snd (strict_pipeline (take i txs) 0 s0) \<and>
          jobs c = None \<and> \<not> jobs_closed c \<and> results c = None \<and> \<not> results_closed c \<and>
          all_recv (workers c)
      | MRecv i \<Rightarrow>
          i < length txs \<and> \<not> jobs_closed c \<and> \<not> results_closed c \<and> in_flight txs s0 i c
      | MDrain \<Rightarrow>
          ledger c = fst (strict_pipeline txs 0 s0) \<and>
          trace c = snd (strict_pipeline txs 0 s0) \<and>
          jobs c = None \<and> jobs_closed c \<and> results c = None \<and>
          (\<forall>j < length (workers c). workers c ! j = WRecv \<or> workers c ! j = WExit) \<and>
          (results_closed c \<longrightarrow> list_all is_exit (workers c))
      | MDone \<Rightarrow>
          ledger c = fst (strict_pipeline txs 0 s0) \<and>
          trace c = snd (strict_pipeline txs 0 s0) \<and>
          jobs c = None \<and> jobs_closed c \<and> results c = None \<and> results_closed c \<and>
          list_all is_exit (workers c))"

text \<open>A measure that every step lowers: no run goes on for ever.\<close>

fun wweight :: "wstate \<Rightarrow> nat" where
  "wweight WRecv = 1"
| "wweight (WCompute job) = 4"
| "wweight (WSend result) = 3"
| "wweight WExit = 0"

fun pcweight :: "nat \<Rightarrow> mainpc \<Rightarrow> nat" where
  "pcweight n (MSend i) = 6 * (n - i) + 3"
| "pcweight n (MRecv i) = 6 * (n - Suc i) + 4"
| "pcweight n MDrain = 2"
| "pcweight n MDone = 0"

definition weight :: "nat \<Rightarrow> config \<Rightarrow> nat" where
  "weight n c =
     pcweight n (pc c) + sum_list (map wweight (workers c)) +
     (case jobs c of None \<Rightarrow> 0 | Some _ \<Rightarrow> 4) +
     (case results c of None \<Rightarrow> 0 | Some _ \<Rightarrow> 1) +
     (if results_closed c then 0 else 1) + (if panicked c then 0 else 1)"

section \<open>Lemmas on the ledger\<close>

lemma neg_magnitude:
  fixes d :: "64 word"
  assumes "sint d < 0"
  shows "uint (- d) = - sint d"
proof -
  have "uint (- d) = uint (word_of_int (- sint d) :: 64 word)" by simp
  also have "\<dots> = (- sint d) mod 2 ^ LENGTH(64)" by (rule uint_word_of_int)
  finally have "uint (- d) = (- sint d) mod 2 ^ 64" by simp
  moreover have "- (2 ^ 63) \<le> sint d" using sint_ge [of d] by simp
  ultimately show ?thesis using assms by simp
qed

lemma nonneg_magnitude:
  fixes d :: "64 word"
  assumes "0 \<le> sint d"
  shows "uint d = sint d"
proof -
  have "uint d = uint (word_of_int (sint d) :: 64 word)" by simp
  also have "\<dots> = sint d mod 2 ^ LENGTH(64)" by (rule uint_word_of_int)
  finally have "uint d = sint d mod 2 ^ 64" by simp
  moreover have "sint d < 2 ^ 63" using sint_lt [of d] by simp
  ultimately show ?thesis using assms by simp
qed

lemma keys_applyUpdate:
  "fst ` set (accounts (applyUpdate s u)) = insert (AccountUpdate.Name u) (fst ` set (accounts s))"
  by (simp add: applyUpdate_def Let_def dom_update)

lemma keys_applyUpdates:
  "fst ` set (accounts (applyUpdates s us)) = fst ` set (accounts s) \<union> AccountUpdate.Name ` set us"
  unfolding applyUpdates_def
  by (induction us arbitrary: s) (auto simp: keys_applyUpdate)

lemma balance_of_update:
  "balance_of (AList.update k v al) k' = (if k' = k then v else balance_of al k')"
  by (simp add: balance_of_def update_conv')

lemma balance_of_absent: "name \<notin> fst ` set al \<Longrightarrow> balance_of al name = 0"
proof -
  assume "name \<notin> fst ` set al"
  then have "map_of al name = None" by (simp add: map_of_eq_None_iff)
  then show ?thesis by (simp add: balance_of_def)
qed

lemma keys_New_aux:
  "fst ` set (accounts (foldl (\<lambda>state acc.
              state\<lparr>accounts := AList.update (AccountValue.Name acc) (Balance acc) (accounts state)\<rparr>) s xs))
    = fst ` set (accounts s) \<union> AccountValue.Name ` set xs"
  by (induction xs arbitrary: s) (auto simp: dom_update)

lemma keys_New: "fst ` set (accounts (NewInMemoryAccountState xs)) = AccountValue.Name ` set xs"
  by (simp add: NewInMemoryAccountState_def keys_New_aux)

lemma keys_batches:
  "fst ` set (accounts (foldl ApplyUpdates s batches)) = fst ` set (accounts s) \<union> AccountUpdate.Name ` set (concat batches)"
  by (induction batches arbitrary: s) (auto simp: ApplyUpdates_def keys_applyUpdates)

lemma names_getSnapshot: "AccountValue.Name ` set (getSnapshot s) = fst ` set (accounts s)"
  by (force simp: getSnapshot_def image_iff split: prod.splits)

lemma GetAccount_ApplyUpdates_single:
  "GetAccount (ApplyUpdates s [u]) (AccountUpdate.Name u) =
     \<lparr>Name = AccountUpdate.Name u,
      Balance = (let b = Balance (GetAccount s (AccountUpdate.Name u)); d = BalanceChange u
                 in if 0 \<le> sint d then b + d else if b < - d then 0 else b - (- d))\<rparr>"
  by (simp add: GetAccount_def ApplyUpdates_def applyUpdates_def applyUpdate_def Let_def balance_of_update)

section \<open>The invariant holds in every reachable configuration\<close>

lemma strict_pipeline_snoc:
  "strict_pipeline (xs @ [tx]) i s =
     (case strict_pipeline xs i s of
        (s1, e1) \<Rightarrow>
          (case tx (GetAccount s1) of
             (us, None) \<Rightarrow>
               (applyUpdates s1 us, e1 @ [EvCompute (i + length xs) s1, EvCommit (i + length xs) us])
           | (us, Some e) \<Rightarrow> (s1, e1 @ [EvCompute (i + length xs) s1])))"
  by (induction xs arbitrary: i s) (auto split: prod.splits option.splits)

lemma strict_pipeline_take_Suc:
  assumes "i < length txs"
  shows "strict_pipeline (take (Suc i) txs) 0 s0 =
     (case strict_pipeline (take i txs) 0 s0 of
        (s1, e1) \<Rightarrow>
          (case (txs ! i) (GetAccount s1) of
             (us, None) \<Rightarrow> (applyUpdates s1 us, e1 @ [EvCompute i s1, EvCommit i us])
           | (us, Some e) \<Rightarrow> (s1, e1 @ [EvCompute i s1])))"
  using assms by (simp add: take_Suc_conv_app_nth strict_pipeline_snoc split: prod.splits option.splits)

lemma all_recv_update: "all_recv ws \<Longrightarrow> k < length ws \<Longrightarrow> one_busy w (ws[k := w])"
  by (auto simp: all_recv_def one_busy_def nth_list_update)

lemma inv_init: "1 \<le> W \<Longrightarrow> exec_inv txs s0 (init_config s0 W)"
  by (auto simp: exec_inv_def init_config_def all_recv_def)

lemma inv_closer:
  assumes "exec_inv txs s0 c" and "closer_step c = Some c'"
  shows "exec_inv txs s0 c'"
proof (cases "pc c")
  case (MSend i)
  with assms show ?thesis
    by (auto simp: exec_inv_def closer_step_def all_recv_def list_all_length split: if_splits)
next
  case (MRecv i)
  with assms show ?thesis
    by (auto simp: exec_inv_def closer_step_def in_flight_def Let_def all_recv_def one_busy_def list_all_length split: if_splits)
next
  case MDrain
  with assms show ?thesis
    by (auto simp: exec_inv_def closer_step_def split: if_splits)
next
  case MDone
  with assms show ?thesis
    by (auto simp: exec_inv_def closer_step_def split: if_splits)
qed

lemma all_recv_nth: "all_recv ws \<Longrightarrow> k < length ws \<Longrightarrow> ws ! k = WRecv"
  by (simp add: all_recv_def)

lemma one_busy_nth: "one_busy w ws \<Longrightarrow> k < length ws \<Longrightarrow> ws ! k \<noteq> WRecv \<Longrightarrow> ws ! k = w"
  by (auto simp: one_busy_def)

lemma one_busy_move:
  "one_busy w ws \<Longrightarrow> k < length ws \<Longrightarrow> ws ! k \<noteq> WRecv \<Longrightarrow> one_busy w' (ws[k := w'])"
  unfolding one_busy_def by (metis length_list_update nth_list_update)

lemma one_busy_release:
  "one_busy w ws \<Longrightarrow> k < length ws \<Longrightarrow> ws ! k \<noteq> WRecv \<Longrightarrow> all_recv (ws[k := WRecv])"
  unfolding one_busy_def all_recv_def by (metis length_list_update nth_list_update)

lemma inv_worker_MRecv:
  assumes "exec_inv txs s0 c" and "worker_step k c = Some c'" and pc: "pc c = MRecv i"
  shows "exec_inv txs s0 c'"
proof -
  let ?P = "strict_pipeline (take i txs) 0 s0"
  let ?ws = "workers c"
  from assms have basic: "\<not> panicked c" "?ws \<noteq> []" "i < length txs" "\<not> jobs_closed c"
      "\<not> results_closed c" "ledger c = fst ?P"
    by (auto simp: exec_inv_def in_flight_def Let_def)
  from assms have stage:
    "jobs c = Some (job_of txs i) \<and> results c = None \<and> all_recv ?ws \<and> trace c = snd ?P
     \<or> jobs c = None \<and> results c = None \<and> one_busy (WCompute (job_of txs i)) ?ws \<and> trace c = snd ?P
     \<or> jobs c = None \<and> results c = None \<and> one_busy (WSend (result_of txs i (fst ?P))) ?ws \<and>
        trace c = snd ?P @ [EvCompute i (fst ?P)]
     \<or> jobs c = None \<and> results c = Some (result_of txs i (fst ?P)) \<and> all_recv ?ws \<and>
        trace c = snd ?P @ [EvCompute i (fst ?P)]"
    by (simp add: exec_inv_def in_flight_def Let_def)
  from assms(2) have k: "k < length ?ws"
    by (auto simp: worker_step_def split: if_splits)
  show ?thesis
  proof (cases "?ws ! k")
    case WRecv
    with stage k have "jobs c \<noteq> None \<Longrightarrow>
        jobs c = Some (job_of txs i) \<and> results c = None \<and> all_recv ?ws \<and> trace c = snd ?P"
      by auto
    with WRecv assms(2) k basic pc show ?thesis
      by (auto simp: worker_step_def exec_inv_def in_flight_def Let_def all_recv_update
          split: option.splits)
  next
    case (WCompute job)
    with stage k have st: "jobs c = None" "results c = None"
        "one_busy (WCompute (job_of txs i)) ?ws" "trace c = snd ?P"
      by (auto dest: all_recv_nth one_busy_nth)
    with WCompute k have job: "job = job_of txs i"
      using one_busy_nth [of "WCompute (job_of txs i)" ?ws k] by simp
    have "one_busy (WSend (result_of txs i (fst ?P))) (?ws[k := WSend (result_of txs i (fst ?P))])"
      using st(3) k WCompute by (simp add: one_busy_move)
    with WCompute assms(2) k basic pc st job show ?thesis
      by (auto simp: worker_step_def exec_inv_def in_flight_def Let_def job_of_def result_of_def
          split: prod.splits)
  next
    case (WSend r)
    with stage k have st: "jobs c = None" "results c = None"
        "one_busy (WSend (result_of txs i (fst ?P))) ?ws" "trace c = snd ?P @ [EvCompute i (fst ?P)]"
      by (auto dest: all_recv_nth one_busy_nth)
    with WSend k have r: "r = result_of txs i (fst ?P)"
      using one_busy_nth [of "WSend (result_of txs i (fst ?P))" ?ws k] by simp
    have "all_recv (?ws[k := WRecv])"
      using st(3) k WSend by (simp add: one_busy_release)
    with WSend assms(2) k basic pc st r show ?thesis
      by (auto simp: worker_step_def exec_inv_def in_flight_def Let_def)
  next
    case WExit
    with assms(2) k show ?thesis
      by (simp add: worker_step_def)
  qed
qed

lemma inv_worker:
  assumes "exec_inv txs s0 c" and "worker_step k c = Some c'"
  shows "exec_inv txs s0 c'"
proof (cases "pc c")
  case (MSend i)
  with assms show ?thesis
    by (auto simp: exec_inv_def worker_step_def all_recv_def split: if_splits)
next
  case (MRecv i)
  with assms show ?thesis
    by (rule inv_worker_MRecv)
next
  case MDrain
  from assms(2) have k: "k < length (workers c)"
    by (auto simp: worker_step_def split: if_splits)
  with assms(1) MDrain have "workers c ! k = WRecv \<or> workers c ! k = WExit"
    and "results_closed c \<longrightarrow> is_exit (workers c ! k)"
    by (auto simp: exec_inv_def list_all_length)
  with assms MDrain k show ?thesis
    by (cases "workers c ! k")
      (auto simp: exec_inv_def worker_step_def list_all_length nth_list_update split: if_splits)
next
  case MDone
  from assms(2) have k: "k < length (workers c)"
    by (auto simp: worker_step_def split: if_splits)
  with assms(1) MDone have "is_exit (workers c ! k)"
    by (auto simp: exec_inv_def list_all_length)
  with assms(2) k show ?thesis
    by (cases "workers c ! k") (auto simp: worker_step_def)
qed

lemma inv_main:
  assumes "exec_inv txs s0 c" and "main_step txs c = Some c'"
  shows "exec_inv txs s0 c'"
proof (cases "pc c")
  case (MSend i)
  with assms show ?thesis
    by (auto simp: exec_inv_def main_step_def in_flight_def Let_def job_of_def all_recv_nth
        split: if_splits)
next
  case (MRecv i)
  let ?P = "strict_pipeline (take i txs) 0 s0"
  from assms MRecv have basic: "\<not> panicked c" "workers c \<noteq> []" "i < length txs" "\<not> jobs_closed c"
      "\<not> results_closed c" "ledger c = fst ?P"
    by (auto simp: exec_inv_def in_flight_def Let_def)
  from assms(2) MRecv basic obtain r where r: "results c = Some r"
    and c': "c' = commit r (c\<lparr>results := None, pc := MSend (Suc i)\<rparr>)"
    by (auto simp: main_step_def split: option.splits)
  with assms(1) MRecv have st: "jobs c = None" "r = result_of txs i (fst ?P)" "all_recv (workers c)"
      "trace c = snd ?P @ [EvCompute i (fst ?P)]"
    by (auto simp: exec_inv_def in_flight_def Let_def)
  show ?thesis
    using basic st c' strict_pipeline_take_Suc [OF basic(3), of s0]
    by (auto simp: exec_inv_def commit_def result_of_def ApplyUpdates_def split: prod.splits option.splits)
next
  case MDrain
  with assms show ?thesis
    by (auto simp: exec_inv_def main_step_def split: if_splits option.splits)
next
  case MDone
  with assms show ?thesis
    by (auto simp: exec_inv_def main_step_def)
qed


lemma inv_step:
  assumes "exec_inv txs s0 c" and "step txs a c = Some c'"
  shows "exec_inv txs s0 c'"
proof (cases a)
  case Main
  with assms(2) have "main_step txs c = Some c'"
    by (simp add: step_def split: if_splits)
  with assms(1) show ?thesis by (rule inv_main)
next
  case (Worker k)
  with assms(2) have "worker_step k c = Some c'"
    by (simp add: step_def split: if_splits)
  with assms(1) show ?thesis by (rule inv_worker)
next
  case Closer
  with assms(2) have "closer_step c = Some c'"
    by (simp add: step_def split: if_splits)
  with assms(1) show ?thesis by (rule inv_closer)
qed

lemma inv_run: "exec_inv txs s0 c \<Longrightarrow> run txs sched c = Some c' \<Longrightarrow> exec_inv txs s0 c'"
proof (induction sched arbitrary: c)
  case Nil
  then show ?case by simp
next
  case (Cons a sched)
  from Cons.prems(2) obtain c1 where s1: "step txs a c = Some c1" and r: "run txs sched c1 = Some c'"
    by (auto split: option.splits)
  from Cons.prems(1) s1 have "exec_inv txs s0 c1" by (rule inv_step)
  then show ?case using r by (rule Cons.IH)
qed

section \<open>The account ledger\<close>

text \<open>
  C5. For every account and every negative delta whose magnitude exceeds the current
  balance of the account, \<open>ApplyUpdates\<close> leaves the account with balance exactly 0: the
  value read back is the account with balance 0, not a wrapped value, and the call has
  no failure result.
\<close>

theorem ApplyUpdates_underflow_clamps_to_zero:
  assumes "sint (BalanceChange u) < 0"
    and "uint (Balance (GetAccount s (AccountUpdate.Name u))) < - sint (BalanceChange u)"
  shows "GetAccount (ApplyUpdates s [u]) (AccountUpdate.Name u) =
           \<lparr>Name = AccountUpdate.Name u, Balance = 0\<rparr>"
proof -
  have "uint (Balance (GetAccount s (AccountUpdate.Name u))) < uint (- BalanceChange u)"
    using assms by (simp add: neg_magnitude)
  then have "Balance (GetAccount s (AccountUpdate.Name u)) < - BalanceChange u"
    by (simp add: word_less_def)
  with assms(1) show ?thesis
    by (simp add: GetAccount_ApplyUpdates_single Let_def)
qed

theorem ApplyUpdates_underflow_clamps_to_zero_witness:
  "sint (BalanceChange \<lparr>AccountUpdate.Name = ''A'', BalanceChange = - 50\<rparr>) < 0 \<and>
   uint (Balance (GetAccount \<lparr>accounts = [(''A'', 10)]\<rparr> ''A'')) < - sint (- 50 :: go_int) \<and>
   GetAccount (ApplyUpdates \<lparr>accounts = [(''A'', 10)]\<rparr>
                 [\<lparr>AccountUpdate.Name = ''A'', BalanceChange = - 50\<rparr>]) ''A'' =
     \<lparr>Name = ''A'', Balance = 0\<rparr>"
proof -
  let ?u = "\<lparr>AccountUpdate.Name = ''A'', BalanceChange = - 50 :: go_int\<rparr>"
  let ?s = "\<lparr>accounts = [(''A'', 10 :: go_uint)]\<rparr>"
  have h1: "sint (BalanceChange ?u) < 0" by simp
  have h2: "uint (Balance (GetAccount ?s (AccountUpdate.Name ?u))) < - sint (BalanceChange ?u)"
    by (simp add: GetAccount_def balance_of_def)
  from ApplyUpdates_underflow_clamps_to_zero [OF h1 h2] h1 h2 show ?thesis by simp
qed

text \<open>
  C6. For every ledger state built from an initial state by any sequence of applied
  batches, and every account name that is neither in the initial state nor named by an
  applied delta, \<open>GetAccount\<close> returns the account of that name with balance 0.
\<close>

theorem GetAccount_unseen_is_zero:
  assumes "name \<notin> AccountValue.Name ` set initialState"
    and "name \<notin> AccountUpdate.Name ` set (concat batches)"
  shows "GetAccount (foldl ApplyUpdates (NewInMemoryAccountState initialState) batches) name
         = \<lparr>Name = name, Balance = 0\<rparr>"
proof -
  have "name \<notin> fst ` set (accounts (foldl ApplyUpdates (NewInMemoryAccountState initialState) batches))"
    using assms by (simp add: keys_batches keys_New)
  then show ?thesis
    by (simp add: GetAccount_def balance_of_absent)
qed

theorem GetAccount_unseen_is_zero_witness:
  "''Z'' \<notin> AccountValue.Name ` set [\<lparr>Name = ''A'', Balance = 20\<rparr>] \<and>
   ''Z'' \<notin> AccountUpdate.Name ` set (concat [[\<lparr>AccountUpdate.Name = ''A'', BalanceChange = - 5\<rparr>,
                                                  \<lparr>AccountUpdate.Name = ''B'', BalanceChange = 5\<rparr>]]) \<and>
   GetAccount (foldl ApplyUpdates (NewInMemoryAccountState [\<lparr>Name = ''A'', Balance = 20\<rparr>])
                 [[\<lparr>AccountUpdate.Name = ''A'', BalanceChange = - 5\<rparr>,
                   \<lparr>AccountUpdate.Name = ''B'', BalanceChange = 5\<rparr>]]) ''Z''
     = \<lparr>Name = ''Z'', Balance = 0\<rparr>"
proof -
  let ?init = "[\<lparr>Name = ''A'', Balance = 20 :: go_uint\<rparr>]"
  let ?batches = "[[\<lparr>AccountUpdate.Name = ''A'', BalanceChange = - 5 :: go_int\<rparr>,
                    \<lparr>AccountUpdate.Name = ''B'', BalanceChange = 5\<rparr>]]"
  have h1: "''Z'' \<notin> AccountValue.Name ` set ?init" by simp
  have h2: "''Z'' \<notin> AccountUpdate.Name ` set (concat ?batches)" by simp
  from GetAccount_unseen_is_zero [OF h1 h2] h1 h2 show ?thesis by simp
qed

text \<open>
  C7, as the specification states it: an account absent from the initial state that
  never receives a positive delta does not appear in the snapshot. The code writes the
  map entry for every delta, whatever its sign. A block with the one transfer of value 0
  from \<open>X\<close> to \<open>Y\<close>, run from the empty initial state, returns a snapshot with both
  accounts; a delta of \<open>-5\<close> on the unknown account \<open>Z\<close> leaves \<open>Z\<close> in the snapshot with
  balance 0.
\<close>

theorem nonpositive_delta_creates_account:
  "Start [[Main, Worker 0, Worker 0, Worker 0, Main, Main, Worker 0, Closer, Main]]
     [\<lparr>Transactions = [Updates \<lparr>tfrom = ''X'', tto = ''Y'', tvalue = 0\<rparr>]\<rparr>] [] 1
   = Some (Inr [\<lparr>Name = ''X'', Balance = 0\<rparr>, \<lparr>Name = ''Y'', Balance = 0\<rparr>]) \<and>
   getSnapshot (ApplyUpdates (NewInMemoryAccountState [])
                  [\<lparr>AccountUpdate.Name = ''Z'', BalanceChange = - 5\<rparr>])
   = [\<lparr>Name = ''Z'', Balance = 0\<rparr>]"
  by (simp add: Start_def ExecuteBlock_def init_config_def step_def main_step_def
      worker_step_def closer_step_def commit_def Updates_def GetAccount_def balance_of_def
      NewInMemoryAccountState_def ApplyUpdates_def applyUpdates_def applyUpdate_def
      GetSnapshot_def getSnapshot_def Let_def)

text \<open>
  C7, amended: the names in the snapshot are exactly the names of the initial state
  together with the names of all applied deltas, of any sign. An account absent from the
  initial state appears in the snapshot exactly when some applied delta names it.
\<close>

theorem snapshot_names_initial_and_touched:
  "AccountValue.Name ` set (getSnapshot (foldl ApplyUpdates (NewInMemoryAccountState initialState) batches))
   = AccountValue.Name ` set initialState \<union> AccountUpdate.Name ` set (concat batches)"
  by (simp add: names_getSnapshot keys_batches keys_New)

text \<open>
  C8, as the specification states it: a positive delta that overflows the balance gives
  the saturated maximum or an error, never a wrapped value. The code adds with Go's
  wrapping \<open>+\<close> and has no check: the delta 1 on the balance \<open>2^64 - 1\<close> is positive,
  the sum is not representable, and the balance read back is 0.
\<close>

theorem positive_delta_overflow_wraps:
  "0 < sint (BalanceChange \<lparr>AccountUpdate.Name = ''A'', BalanceChange = 1\<rparr>) \<and>
   2 ^ 64 \<le> uint (Balance (GetAccount \<lparr>accounts = [(''A'', 18446744073709551615)]\<rparr> ''A''))
           + sint (1 :: go_int) \<and>
   GetAccount (ApplyUpdates \<lparr>accounts = [(''A'', 18446744073709551615)]\<rparr>
                 [\<lparr>AccountUpdate.Name = ''A'', BalanceChange = 1\<rparr>]) ''A''
   = \<lparr>Name = ''A'', Balance = 0\<rparr>"
  by (simp add: GetAccount_def balance_of_def ApplyUpdates_def applyUpdates_def applyUpdate_def)

text \<open>
  C8, amended: for every balance \<open>b\<close> and delta \<open>d \<ge> 0\<close> the resulting balance is
  \<open>(b + d) mod 2^64\<close>: the sum when it is representable, the wrapped sum otherwise.
\<close>

theorem positive_delta_adds_modulo:
  assumes "0 \<le> sint (BalanceChange u)"
  shows "uint (Balance (GetAccount (ApplyUpdates s [u]) (AccountUpdate.Name u)))
         = (uint (Balance (GetAccount s (AccountUpdate.Name u))) + sint (BalanceChange u)) mod 2 ^ 64"
  using assms
  by (simp add: GetAccount_ApplyUpdates_single Let_def uint_word_ariths nonneg_magnitude)

theorem positive_delta_adds_modulo_witness:
  "0 \<le> sint (BalanceChange \<lparr>AccountUpdate.Name = ''B'', BalanceChange = 5\<rparr>) \<and>
   uint (Balance (GetAccount (ApplyUpdates \<lparr>accounts = [(''B'', 30)]\<rparr>
                    [\<lparr>AccountUpdate.Name = ''B'', BalanceChange = 5\<rparr>]) ''B''))
   = (uint (Balance (GetAccount \<lparr>accounts = [(''B'', 30)]\<rparr> ''B'')) + sint (5 :: go_int)) mod 2 ^ 64"
proof -
  let ?u = "\<lparr>AccountUpdate.Name = ''B'', BalanceChange = 5 :: go_int\<rparr>"
  have h: "0 \<le> sint (BalanceChange ?u)" by simp
  from positive_delta_adds_modulo [OF h, of "\<lparr>accounts = [(''B'', 30)]\<rparr>"] h show ?thesis by simp
qed

end
